theory Spec2Isabelle
  imports Complex_Main
begin

section \<open>JavaScript values and errors\<close>

text \<open>
  The filter object and the metadata of a document are \<^verbatim>\<open>Record<string, any>\<close>.
  The values that occur there are modelled by \<open>jsval\<close>. A number is an integer here,
  below \<open>10\<^sup>2\<^sup>1\<close> in size: for these the text that a template literal produces is
  the decimal numeral. Fractions and larger numbers, which JavaScript prints in its
  own way, are outside \<open>jsval\<close>.
  An object is the list of its entries in \<^verbatim>\<open>Object.entries\<close> order.
\<close>

datatype jsval =
    JNull
  | JBool bool
  | JNum int
  | JStr string
  | JArr "jsval list"
  | JObj "(string \<times> jsval) list"

type_synonym record_any = "(string \<times> jsval) list"

text \<open>The error classes of \<^verbatim>\<open>errors.ts\<close>, and the \<^verbatim>\<open>TypeError\<close> of the runtime.\<close>

datatype error =
    ValidationError string
  | SearchError string
  | CollectionError string
  | EmbeddingError string
  | TypeError string

fun show_nat :: "nat \<Rightarrow> string" where
  "show_nat n =
     (if n < 10 then [''0123456789'' ! n]
      else show_nat (n div 10) @ [''0123456789'' ! (n mod 10)])"

declare show_nat.simps [simp del]

definition show_int :: "int \<Rightarrow> string" where
  "show_int i = (if i < 0 then ''-'' @ show_nat (nat (- i)) else show_nat (nat i))"

text \<open>\<^verbatim>\<open>Array.prototype.join\<close> on an array of strings.\<close>

fun join :: "string \<Rightarrow> string list \<Rightarrow> string" where
  "join sep [] = []"
| "join sep [x] = x"
| "join sep (x # y # ys) = x @ sep @ join sep (y # ys)"

text \<open>
  The string that \<^verbatim>\<open>${v}\<close> produces inside a template literal: \<^verbatim>\<open>String(v)\<close>.
  An array is joined with commas, where \<^verbatim>\<open>null\<close> elements give the empty string.
\<close>

fun js_string :: "jsval \<Rightarrow> string" where
  "js_string JNull = ''null''"
| "js_string (JBool b) = (if b then ''true'' else ''false'')"
| "js_string (JNum n) = show_int n"
| "js_string (JStr s) = s"
| "js_string (JArr vs) = join '','' (map (\<lambda>v. if v = JNull then [] else js_string v) vs)"
| "js_string (JObj kvs) = ''[object Object]''"

text \<open>\<^verbatim>\<open>Object.entries\<close> of a value that passed \<^verbatim>\<open>typeof value === 'object' && value !== null\<close>.\<close>

fun entries :: "jsval \<Rightarrow> (string \<times> jsval) list" where
  "entries (JObj kvs) = kvs"
| "entries (JArr vs) = zip (map show_nat [0..<length vs]) vs"
| "entries v = []"

section \<open>The filter compiler: \<^verbatim>\<open>buildFilterConditions\<close>\<close>

text \<open>
  Each \<^verbatim>\<open>conditions.push\<close> of the source adds one fragment. A fragment keeps the three
  pieces that the template literal pastes together (the key, the SQL operator and the
  text of the value); \<open>render\<close> is the template literal itself.
\<close>

datatype fragment =
    Compare string string string
  | InList string "string list"

definition quoted :: "string \<Rightarrow> string" where
  "quoted s = [CHR 0x27] @ s @ [CHR 0x27]"

definition jsonValue :: "string \<Rightarrow> string" where
  "jsonValue key = ''JSON_VALUE(metadata, '$.'' @ key @ ''')''"

fun render :: "fragment \<Rightarrow> string" where
  "render (Compare key sqlop lit) = jsonValue key @ '' '' @ sqlop @ '' '' @ quoted lit"
| "render (InList key lits) = jsonValue key @ '' IN ('' @ join '','' (map quoted lits) @ '')''"

text \<open>
  The \<^verbatim>\<open>switch (op)\<close>: seven cases and no default. For \<open>$in\<close> the value is taken as
  an array; on any other value \<^verbatim>\<open>val.map\<close> throws a \<^verbatim>\<open>TypeError\<close> (one message stands
  for the messages of the runtime).
\<close>

fun opFragments :: "string \<Rightarrow> string \<times> jsval \<Rightarrow> error + fragment list" where
  "opFragments key (op, val) =
     (if op = ''$eq'' then Inr [Compare key ''='' (js_string val)]
      else if op = ''$ne'' then Inr [Compare key ''!='' (js_string val)]
      else if op = ''$gt'' then Inr [Compare key ''>'' (js_string val)]
      else if op = ''$gte'' then Inr [Compare key ''>='' (js_string val)]
      else if op = ''$lt'' then Inr [Compare key ''<'' (js_string val)]
      else if op = ''$lte'' then Inr [Compare key ''<='' (js_string val)]
      else if op = ''$in'' then
        (case val of
           JArr vs \<Rightarrow> Inr [InList key (map js_string vs)]
         | _ \<Rightarrow> Inl (TypeError ''val.map is not a function''))
      else Inr [])"

text \<open>A \<^verbatim>\<open>for ... of\<close> loop that pushes fragments; an exception leaves the loop.\<close>

fun collect :: "('a \<Rightarrow> error + fragment list) \<Rightarrow> 'a list \<Rightarrow> error + fragment list" where
  "collect f [] = Inr []"
| "collect f (x # xs) =
     (case f x of
        Inl e \<Rightarrow> Inl e
      | Inr cs \<Rightarrow> (case collect f xs of Inl e \<Rightarrow> Inl e | Inr ds \<Rightarrow> Inr (cs @ ds)))"

fun isObject :: "jsval \<Rightarrow> bool" where
  "isObject (JObj kvs) = True"
| "isObject (JArr vs) = True"
| "isObject v = False"

fun keyFragments :: "string \<times> jsval \<Rightarrow> error + fragment list" where
  "keyFragments (key, value) =
     (if isObject value then collect (opFragments key) (entries value)
      else Inr [Compare key ''='' (js_string value)])"

definition filterFragments :: "record_any \<Rightarrow> error + fragment list" where
  "filterFragments flt = collect keyFragments flt"

definition buildFilterConditions :: "record_any \<Rightarrow> error + string" where
  "buildFilterConditions flt =
     (case filterFragments flt of
        Inl e \<Rightarrow> Inl e
      | Inr conditions \<Rightarrow> Inr (join '' AND '' (map render conditions)))"

section \<open>The embedding service: \<^verbatim>\<open>embeddings.ts\<close>\<close>

type_synonym vector = "real list"

text \<open>
  A row of the collection's table, and a statement as \<^verbatim>\<open>connection.execute\<close> gets it:
  the SQL text and the bind values by name. The bind \<^verbatim>\<open>queryVector\<close> is the text
  \<^verbatim>\<open>[v1,v2,...]\<close> of a vector; the model keeps the vector.
\<close>

record row =
  row_id :: string
  row_embedding :: vector
  row_text :: "string option"
  row_metadata :: record_any
  row_namespace :: string

datatype bindValue =
    BindString string
  | BindNumber int
  | BindVector vector

record statement =
  stmt_sql :: string
  stmt_binds :: "(string \<times> bindValue) list"

text \<open>
  What the service and the collection take from outside: the embedding provider
  (\<^verbatim>\<open>openai.embeddings.create\<close>, with \<open>Inl\<close> the text of the error when the call
  throws), the milliseconds that pass while the provider calls of one request are in
  flight, \<^verbatim>\<open>JSON.stringify\<close>, the store's \<^verbatim>\<open>VECTOR_DISTANCE\<close> for the configured
  metric, and two unknowns of the store for a \<^verbatim>\<open>SELECT\<close>: whether it fails on a
  statement (with the text of its error), and the rows with their distances that it
  gives for a statement whose text the model does not read.
\<close>

record env =
  provider :: "string \<Rightarrow> string list \<Rightarrow> string + vector list"
  latency :: nat
  stringify :: "record_any \<Rightarrow> string"
  vectorDistance :: "string option \<Rightarrow> vector \<Rightarrow> vector \<Rightarrow> real"
  storeFails :: "statement \<Rightarrow> string option"
  storeRows :: "statement \<Rightarrow> row list \<Rightarrow> (row \<times> real) list"

text \<open>
  Modelled from the spec: the \<^verbatim>\<open>lru-cache\<close> package is not part of the repository.
  The spec gives a cache entry as \<open>(model, text) \<rightarrow> vector\<close> with an absolute maximal
  entry count, eviction of the least recently used entry, and expiry after a fixed TTL
  window measured from insertion, independent of access. An entry is
  (key, vector, time of insertion); the list is ordered from the most to the least
  recently used entry.
\<close>

type_synonym lru = "(string \<times> vector \<times> nat) list"

definition cacheMax :: nat where
  "cacheMax = 1000"

definition cacheTtl :: nat where
  "cacheTtl = 1000 * 60 * 60"

definition stale :: "nat \<Rightarrow> string \<times> vector \<times> nat \<Rightarrow> bool" where
  "stale now e = (cacheTtl < now - snd (snd e))"

definition without :: "string \<Rightarrow> lru \<Rightarrow> lru" where
  "without k c = filter (\<lambda>e. fst e \<noteq> k) c"

definition cacheGet :: "nat \<Rightarrow> string \<Rightarrow> lru \<Rightarrow> vector option \<times> lru" where
  "cacheGet now k c =
     (case find (\<lambda>e. fst e = k) c of
        None \<Rightarrow> (None, c)
      | Some e \<Rightarrow>
          if stale now e then (None, without k c)
          else (Some (fst (snd e)), e # without k c))"

definition cacheSet :: "nat \<Rightarrow> string \<Rightarrow> vector \<Rightarrow> lru \<Rightarrow> lru" where
  "cacheSet now k v c = take cacheMax ((k, v, now) # without k c)"

text \<open>
  The state that the operations share: the rows of the collection's table, the cache of
  the embedding service, the provider calls issued so far (model and input texts, oldest
  first) and the time in milliseconds.
\<close>

record state =
  table :: "row list"
  cache :: lru
  calls :: "(string \<times> string list) list"
  clock :: nat

definition cacheKey :: "string \<Rightarrow> string \<Rightarrow> string" where
  "cacheKey model txt = model @ '':'' @ txt"

text \<open>
  \<^verbatim>\<open>results[i] = v\<close> on a JavaScript array: an index beyond the end extends the array
  and leaves holes. A hole reads as \<^verbatim>\<open>undefined\<close>, here \<open>None\<close>.
\<close>

definition arraySet :: "'a option list \<Rightarrow> nat \<Rightarrow> 'a \<Rightarrow> 'a option list" where
  "arraySet xs i v =
     (if i < length xs then xs[i := Some v]
      else xs @ replicate (i - length xs) None @ [Some v])"

definition arrayGet :: "'a option list \<Rightarrow> nat \<Rightarrow> 'a option" where
  "arrayGet xs i = (if i < length xs then xs ! i else None)"

text \<open>The first loop of \<^verbatim>\<open>embed\<close>: hits fill their slot, misses are collected with their index.\<close>

fun scanCache ::
  "nat \<Rightarrow> string \<Rightarrow> nat \<Rightarrow> string list \<Rightarrow>
   vector option list \<times> (string \<times> nat) list \<times> lru \<Rightarrow>
   vector option list \<times> (string \<times> nat) list \<times> lru" where
  "scanCache now model i [] acc = acc"
| "scanCache now model i (t # ts) (results, toEmbed, c) =
     (case cacheGet now (cacheKey model t) c of
        (Some cached, c') \<Rightarrow> scanCache now model (Suc i) ts (arraySet results i cached, toEmbed, c')
      | (None, c') \<Rightarrow> scanCache now model (Suc i) ts (results, toEmbed @ [(t, i)], c'))"

text \<open>
  \<^verbatim>\<open>createBatches\<close>. The loop of the source advances by \<open>batchSize\<close> and so does not end
  for \<open>batchSize = 0\<close> on a non-empty list; the only caller passes 100, and the model
  gives no batch for 0.
\<close>

function createBatches :: "'a list \<Rightarrow> nat \<Rightarrow> 'a list list" where
  "createBatches items batchSize =
     (if batchSize = 0 \<or> items = [] then []
      else take batchSize items # createBatches (drop batchSize items) batchSize)"
  by pat_completeness auto
termination
  by (relation "measure (\<lambda>(items, batchSize). length items)") auto

declare createBatches.simps [simp del]

text \<open>
  One queued task: the provider call for a batch. The \<^verbatim>\<open>catch\<close> wraps the error into
  an \<open>EmbeddingError\<close> whose message ends with the text of the cause. A response with
  fewer entries than the batch makes \<^verbatim>\<open>response.data[idx].embedding\<close> throw a
  \<^verbatim>\<open>TypeError\<close> inside the \<^verbatim>\<open>try\<close>.
\<close>

definition undefinedEmbedding :: string where
  "undefinedEmbedding = ''TypeError: Cannot read properties of undefined (reading 'embedding')''"

definition runBatch :: "env \<Rightarrow> string \<Rightarrow> (string \<times> nat) list \<Rightarrow> error + (nat \<times> vector) list" where
  "runBatch e model batch =
     (case provider e model (map fst batch) of
        Inl cause \<Rightarrow> Inl (EmbeddingError (''Failed to generate embeddings: '' @ cause))
      | Inr data \<Rightarrow>
          if length data < length batch
          then Inl (EmbeddingError (''Failed to generate embeddings: '' @ undefinedEmbedding))
          else Inr (map (\<lambda>(item, embedding). (snd item, embedding)) (zip batch data)))"

text \<open>
  \<^verbatim>\<open>Promise.all\<close>: the results in the order of the promises, or a rejection. When
  several batches fail, the rejection of the first of them in batch order stands for the
  one that arrives first.
\<close>

fun promiseAll :: "(error + 'a) list \<Rightarrow> error + 'a list" where
  "promiseAll [] = Inr []"
| "promiseAll (Inl e # ps) = Inl e"
| "promiseAll (Inr x # ps) = (case promiseAll ps of Inl e \<Rightarrow> Inl e | Inr xs \<Rightarrow> Inr (x # xs))"

text \<open>
  The last loop of \<^verbatim>\<open>embed\<close>: write each vector to its index and into the cache.
  The index is one that the first loop has collected, so \<^verbatim>\<open>texts[batch.index]\<close> is a
  text of the call.
\<close>

fun writeBack ::
  "nat \<Rightarrow> string \<Rightarrow> string list \<Rightarrow> (nat \<times> vector) list \<Rightarrow>
   vector option list \<times> lru \<Rightarrow> vector option list \<times> lru" where
  "writeBack now model texts [] acc = acc"
| "writeBack now model texts ((index, embedding) # rest) (results, c) =
     writeBack now model texts rest
       (arraySet results index embedding, cacheSet now (cacheKey model (texts ! index)) embedding c)"

text \<open>
  \<^verbatim>\<open>embed\<close>, with the way the misses are split into batches as a parameter; the source
  splits with \<^verbatim>\<open>createBatches(toEmbed, 100)\<close>. Every batch is dispatched, so every batch
  is a provider call, also when another batch fails.
\<close>

definition embedWith ::
  "((string \<times> nat) list \<Rightarrow> (string \<times> nat) list list) \<Rightarrow> env \<Rightarrow> string \<Rightarrow> string list \<Rightarrow> state \<Rightarrow>
   (error + vector option list) \<times> state" where
  "embedWith split e model texts s =
     (case scanCache (clock s) model 0 texts ([], [], cache s) of
        (results, toEmbed, c1) \<Rightarrow>
          if toEmbed = [] then (Inr results, s\<lparr>cache := c1\<rparr>)
          else
            (let batches = split toEmbed;
                 s2 = s\<lparr>cache := c1,
                        calls := calls s @ map (\<lambda>batch. (model, map fst batch)) batches,
                        clock := clock s + latency e\<rparr>
             in case promiseAll (map (runBatch e model) batches) of
                  Inl err \<Rightarrow> (Inl err, s2)
                | Inr embeddings \<Rightarrow>
                    (case writeBack (clock s2) model texts (concat embeddings) (results, c1) of
                       (results', c2) \<Rightarrow> (Inr results', s2\<lparr>cache := c2\<rparr>))))"

definition embed :: "env \<Rightarrow> string \<Rightarrow> string list \<Rightarrow> state \<Rightarrow> (error + vector option list) \<times> state" where
  "embed e model texts s = embedWith (\<lambda>toEmbed. createBatches toEmbed 100) e model texts s"

definition embedSingle :: "env \<Rightarrow> string \<Rightarrow> string \<Rightarrow> state \<Rightarrow> (error + vector) \<times> state" where
  "embedSingle e model txt s =
     (case cacheGet (clock s) (cacheKey model txt) (cache s) of
        (Some cached, c1) \<Rightarrow> (Inr cached, s\<lparr>cache := c1\<rparr>)
      | (None, c1) \<Rightarrow>
          (let s2 = s\<lparr>cache := c1, calls := calls s @ [(model, [txt])], clock := clock s + latency e\<rparr>
           in case provider e model [txt] of
                Inl cause \<Rightarrow> (Inl (EmbeddingError (''Failed to generate embedding: '' @ cause)), s2)
              | Inr [] \<Rightarrow>
                  (Inl (EmbeddingError (''Failed to generate embedding: '' @ undefinedEmbedding)), s2)
              | Inr (response # rest) \<Rightarrow>
                  (Inr response, s2\<lparr>cache := cacheSet (clock s2) (cacheKey model txt) response c1\<rparr>)))"

section \<open>The collection: \<^verbatim>\<open>collection.ts\<close>\<close>

record collectionConfig =
  dimension :: int
  metric :: "string option"
  embeddingModel :: "string option"

record collection =
  name :: string
  apiKey :: "string option"
  config :: collectionConfig

record document =
  doc_id :: string
  doc_text :: "string option"
  doc_metadata :: "record_any option"
  doc_vector :: "vector option"

record upsertRequest =
  u_documents :: "document list"
  u_namespace :: "string option"

record queryRequest =
  q_vector :: "vector option"
  q_query :: "string option"
  q_topK :: "int option"
  q_filter :: "record_any option"
  q_includeValues :: bool
  q_includeMetadata :: bool
  q_namespace :: "string option"

record queryMatch =
  m_id :: string
  m_score :: real
  m_text :: "string option"
  m_metadata :: "record_any option"
  m_vector :: "vector option"

record queryResponse =
  r_matches :: "queryMatch list"
  r_namespace :: string

text \<open>An optional string in a condition or on the left of \<^verbatim>\<open>||\<close>: absent and empty are falsy.\<close>

fun truthy :: "string option \<Rightarrow> bool" where
  "truthy None = False"
| "truthy (Some str) = (str \<noteq> [])"

fun orElse :: "string option \<Rightarrow> string \<Rightarrow> string" where
  "orElse None d = d"
| "orElse (Some str) d = (if str = [] then d else str)"

text \<open>The constructor creates the embedding service when there is an API key and a model.\<close>

definition embeddingService :: "collection \<Rightarrow> bool" where
  "embeddingService col = (truthy (apiKey col) \<and> truthy (embeddingModel (config col)))"

definition modelOf :: "collection \<Rightarrow> string" where
  "modelOf col = orElse (embeddingModel (config col)) []"

subsection \<open>The statements, as the store runs them\<close>

text \<open>
  The table is created with \<^verbatim>\<open>id VARCHAR2(255) PRIMARY KEY\<close>, so a table is a list of
  rows with at most one row per id. The \<^verbatim>\<open>MERGE\<close> of \<^verbatim>\<open>upsert\<close> matches
  \<^verbatim>\<open>ON (t.id = s.id)\<close>: a matched row gets the embedding, text, metadata and namespace
  of the bind row, otherwise the bind row is inserted. \<^verbatim>\<open>executeMany\<close> runs the
  statement once for each bind row, in order. The store is taken to run this
  statement without an error of its own. A row holds the vector and the metadata,
  not their texts \<^verbatim>\<open>[v1,v2,...]\<close> and \<^verbatim>\<open>JSON.stringify(metadata)\<close>.
\<close>

fun mergeRow :: "row list \<Rightarrow> row \<Rightarrow> row list" where
  "mergeRow [] b = [b]"
| "mergeRow (r # rs) b = (if row_id r = row_id b then b # rs else r # mergeRow rs b)"

definition executeMany :: "row list \<Rightarrow> row list \<Rightarrow> row list" where
  "executeMany tbl binds = foldl mergeRow tbl binds"

text \<open>
  Modelled from the spec: how the store evaluates a fragment is not code of the
  repository. The spec says that the values are compared as quoted strings:
  \<^verbatim>\<open>JSON_VALUE\<close> gives the text of a scalar (and NULL for a missing key, for
  \<^verbatim>\<open>null\<close> and for a non-scalar), the right-hand side is a string literal, and the
  comparison is that of character strings. A comparison with NULL selects no row.
  This reading is for keys and values without a quote character.
\<close>

fun str_less :: "string \<Rightarrow> string \<Rightarrow> bool" where
  "str_less [] [] = False"
| "str_less [] (y # ys) = True"
| "str_less (x # xs) [] = False"
| "str_less (x # xs) (y # ys) =
     ((of_char x :: nat) < of_char y \<or> (x = y \<and> str_less xs ys))"

definition str_compare :: "string \<Rightarrow> string \<Rightarrow> string \<Rightarrow> bool" where
  "str_compare sqlop a b =
     (if sqlop = ''='' then a = b
      else if sqlop = ''!='' then a \<noteq> b
      else if sqlop = ''>'' then str_less b a
      else if sqlop = ''>='' then \<not> str_less a b
      else if sqlop = ''<'' then str_less a b
      else if sqlop = ''<='' then \<not> str_less b a
      else False)"

fun scalarText :: "jsval \<Rightarrow> string option" where
  "scalarText (JStr str) = Some str"
| "scalarText (JNum n) = Some (show_int n)"
| "scalarText (JBool b) = Some (if b then ''true'' else ''false'')"
| "scalarText v = None"

definition json_value :: "record_any \<Rightarrow> string \<Rightarrow> string option" where
  "json_value md key = (case map_of md key of None \<Rightarrow> None | Some v \<Rightarrow> scalarText v)"

fun holds :: "record_any \<Rightarrow> fragment \<Rightarrow> bool" where
  "holds md (Compare key sqlop lit) =
     (case json_value md key of None \<Rightarrow> False | Some str \<Rightarrow> str_compare sqlop str lit)"
| "holds md (InList key lits) =
     (case json_value md key of None \<Rightarrow> False | Some str \<Rightarrow> str \<in> set lits)"

text \<open>
  The \<^verbatim>\<open>SELECT\<close> of \<^verbatim>\<open>search\<close>, when its text reads as it is meant: the rows of the
  namespace that satisfy every fragment, by ascending distance,
  \<^verbatim>\<open>FETCH FIRST :topK ROWS ONLY\<close> (a row count below 0 counts as 0). Each row comes
  with its distance.
\<close>

definition selectRows ::
  "env \<Rightarrow> string option \<Rightarrow> row list \<Rightarrow> string \<Rightarrow> fragment list \<Rightarrow> vector \<Rightarrow> int \<Rightarrow> (row \<times> real) list" where
  "selectRows e m tbl ns conditions queryVector topK =
     take (nat topK)
       (sort_key snd
          (map (\<lambda>r. (r, vectorDistance e m (row_embedding r) queryVector))
             (filter (\<lambda>r. row_namespace r = ns \<and> list_all (holds (row_metadata r)) conditions) tbl)))"

text \<open>\<^verbatim>\<open>this.config.metric?.toUpperCase() || 'COSINE'\<close>, for the letters a to z.\<close>

definition toUpperCase :: "char \<Rightarrow> char" where
  "toUpperCase c =
     (case map_of (zip ''abcdefghijklmnopqrstuvwxyz'' ''ABCDEFGHIJKLMNOPQRSTUVWXYZ'') c of
        None \<Rightarrow> c
      | Some u \<Rightarrow> u)"

definition metricText :: "collection \<Rightarrow> string" where
  "metricText col = orElse (map_option (map toUpperCase) (metric (config col))) ''COSINE''"

text \<open>
  Modelled from the spec: when the text of the \<^verbatim>\<open>SELECT\<close> reads as it is meant. The
  keys and the texts of the values are pasted into the statement between quotes, so a
  quote in one of them ends the string literal early and what follows is read as SQL;
  a key is also read as a step of a JSON path. The fragments are plain when every key
  is a letter followed by letters, digits and underscores and every value text is
  non-empty and has no quote (the store takes an empty string literal as NULL, and
  an empty \<^verbatim>\<open>IN ()\<close> list is no SQL). The name of the collection and the metric are
  pasted into the statement as well, without quotes, and are to be plain words. The
  store computes the distance to a query vector of the dimension of the column only.
\<close>

definition letters :: string where
  "letters = ''abcdefghijklmnopqrstuvwxyzABCDEFGHIJKLMNOPQRSTUVWXYZ''"

fun plainKey :: "string \<Rightarrow> bool" where
  "plainKey [] = False"
| "plainKey (c # cs) =
     (c \<in> set letters \<and> list_all (\<lambda>d. d \<in> set (letters @ ''0123456789_'')) cs)"

definition plainLiteral :: "string \<Rightarrow> bool" where
  "plainLiteral lit = (lit \<noteq> [] \<and> CHR 0x27 \<notin> set lit)"

fun plainFragment :: "fragment \<Rightarrow> bool" where
  "plainFragment (Compare key sqlop lit) = (plainKey key \<and> plainLiteral lit)"
| "plainFragment (InList key lits) = (plainKey key \<and> lits \<noteq> [] \<and> list_all plainLiteral lits)"

definition readable :: "collection \<Rightarrow> fragment list \<Rightarrow> vector \<Rightarrow> bool" where
  "readable col conditions queryVector =
     (plainKey (name col) \<and> plainKey (metricText col)
      \<and> list_all plainFragment conditions
      \<and> int (length queryVector) = dimension (config col))"

fun vectorBind :: "bindValue option \<Rightarrow> vector option" where
  "vectorBind (Some (BindVector v)) = Some v"
| "vectorBind b = None"

fun stringBind :: "bindValue option \<Rightarrow> string option" where
  "stringBind (Some (BindString str)) = Some str"
| "stringBind b = None"

fun numberBind :: "bindValue option \<Rightarrow> int option" where
  "numberBind (Some (BindNumber n)) = Some n"
| "numberBind b = None"

text \<open>
  \<^verbatim>\<open>connection.execute\<close> for the \<^verbatim>\<open>SELECT\<close> of \<^verbatim>\<open>search\<close>. The store gets the
  statement; \<open>conditions\<close> are the fragments that the filter text of the statement was
  made of. The store may fail on any statement. Otherwise a statement that is
  \<open>readable\<close> gives the rows of \<open>selectRows\<close> for the bind values; for any other
  statement the rows are the environment's.
\<close>

definition execute ::
  "env \<Rightarrow> collection \<Rightarrow> fragment list \<Rightarrow> row list \<Rightarrow> statement \<Rightarrow> string + (row \<times> real) list" where
  "execute e col conditions tbl stmt =
     (case storeFails e stmt of
        Some cause \<Rightarrow> Inl cause
      | None \<Rightarrow>
          (case vectorBind (map_of (stmt_binds stmt) ''queryVector'') of
             None \<Rightarrow> Inr (storeRows e stmt tbl)
           | Some v \<Rightarrow>
               (case stringBind (map_of (stmt_binds stmt) ''namespace'') of
                  None \<Rightarrow> Inr (storeRows e stmt tbl)
                | Some ns \<Rightarrow>
                    (case numberBind (map_of (stmt_binds stmt) ''topK'') of
                       None \<Rightarrow> Inr (storeRows e stmt tbl)
                     | Some k \<Rightarrow>
                         if readable col conditions v
                         then Inr (selectRows e (metric (config col)) tbl ns conditions v k)
                         else Inr (storeRows e stmt tbl)))))"

subsection \<open>\<^verbatim>\<open>upsert\<close>\<close>

definition mismatch :: "string \<Rightarrow> int \<Rightarrow> nat \<Rightarrow> error" where
  "mismatch docId expected got =
     ValidationError
       (''Vector dimension mismatch for document '' @ docId @ ''. Expected '' @ show_int expected
          @ '', got '' @ show_nat got)"

definition textToEmbed :: "env \<Rightarrow> document \<Rightarrow> string" where
  "textToEmbed e doc =
     (if truthy (doc_text doc) then orElse (doc_text doc) []
      else stringify e (case doc_metadata doc of None \<Rightarrow> [] | Some md \<Rightarrow> md))"

text \<open>\<^verbatim>\<open>doc.vector || embeddings[i]\<close>; an array is truthy, also the empty one.\<close>

definition resolveVector :: "document \<Rightarrow> vector option list \<Rightarrow> nat \<Rightarrow> vector option" where
  "resolveVector doc embeddings i =
     (case doc_vector doc of Some v \<Rightarrow> Some v | None \<Rightarrow> arrayGet embeddings i)"

definition bindRow :: "string \<Rightarrow> document \<Rightarrow> vector \<Rightarrow> row" where
  "bindRow ns doc v =
     \<lparr>row_id = doc_id doc,
      row_embedding = v,
      row_text = (if truthy (doc_text doc) then doc_text doc else None),
      row_metadata = (case doc_metadata doc of None \<Rightarrow> [] | Some md \<Rightarrow> md),
      row_namespace = ns\<rparr>"

text \<open>The loop that validates each document and pushes its bind row.\<close>

fun buildBinds :: "int \<Rightarrow> string \<Rightarrow> vector option list \<Rightarrow> nat \<Rightarrow> document list \<Rightarrow> error + row list" where
  "buildBinds expected ns embeddings i [] = Inr []"
| "buildBinds expected ns embeddings i (doc # docs) =
     (case resolveVector doc embeddings i of
        None \<Rightarrow> Inl (mismatch (doc_id doc) expected 0)
      | Some v \<Rightarrow>
          if int (length v) \<noteq> expected then Inl (mismatch (doc_id doc) expected (length v))
          else
            (case buildBinds expected ns embeddings (Suc i) docs of
               Inl err \<Rightarrow> Inl err
             | Inr binds \<Rightarrow> Inr (bindRow ns doc v # binds)))"

text \<open>The embedding step of \<^verbatim>\<open>upsert\<close>: every document's text goes to \<^verbatim>\<open>embed\<close>.\<close>

definition upsertEmbeddings ::
  "env \<Rightarrow> collection \<Rightarrow> document list \<Rightarrow> state \<Rightarrow> (error + vector option list) \<times> state" where
  "upsertEmbeddings e col documents s =
     (if embeddingService col \<and> truthy (embeddingModel (config col))
      then embed e (modelOf col) (map (textToEmbed e) documents) s
      else (Inr [], s))"

definition upsert :: "env \<Rightarrow> collection \<Rightarrow> upsertRequest \<Rightarrow> state \<Rightarrow> (error + unit) \<times> state" where
  "upsert e col request s =
     (let namespace = orElse (u_namespace request) ''default'';
          documents = u_documents request
      in if documents = [] then (Inl (ValidationError ''No documents provided''), s)
         else
           (case upsertEmbeddings e col documents s of
              (Inl err, s1) \<Rightarrow> (Inl err, s1)
            | (Inr embeddings, s1) \<Rightarrow>
                (case buildBinds (dimension (config col)) namespace embeddings 0 documents of
                   Inl err \<Rightarrow> (Inl err, s1)
                 | Inr binds \<Rightarrow> (Inr (), s1\<lparr>table := executeMany (table s1) binds\<rparr>))))"

subsection \<open>\<^verbatim>\<open>search\<close>\<close>

text \<open>The query vector: \<^verbatim>\<open>request.vector\<close>, else the embedding of \<^verbatim>\<open>request.query\<close>.\<close>

definition resolveQueryVector ::
  "env \<Rightarrow> collection \<Rightarrow> queryRequest \<Rightarrow> state \<Rightarrow> (error + vector) \<times> state" where
  "resolveQueryVector e col request s =
     (case q_vector request of
        Some v \<Rightarrow> (Inr v, s)
      | None \<Rightarrow>
          if truthy (q_query request) then
            (if \<not> embeddingService col \<or> \<not> truthy (embeddingModel (config col))
             then (Inl (SearchError ''Embedding service not configured for text queries''), s)
             else embedSingle e (modelOf col) (orElse (q_query request) []) s)
          else (Inl (ValidationError ''Either vector or query must be provided''), s))"

text \<open>\<^verbatim>\<open>request.topK || 10\<close>: an absent topK and 0 give 10.\<close>

definition topKOf :: "queryRequest \<Rightarrow> int" where
  "topKOf request = (case q_topK request of None \<Rightarrow> 10 | Some k \<Rightarrow> if k = 0 then 10 else k)"

definition toMatch :: "queryRequest \<Rightarrow> row \<times> real \<Rightarrow> queryMatch" where
  "toMatch request rs =
     \<lparr>m_id = row_id (fst rs),
      m_score = 1 - snd rs,
      m_text = (if q_includeMetadata request then row_text (fst rs) else None),
      m_metadata = (if q_includeMetadata request then Some (row_metadata (fst rs)) else None),
      m_vector = (if q_includeValues request then Some (row_embedding (fst rs)) else None)\<rparr>"


text \<open>The template literal that starts the statement, with its line breaks and indentation.\<close>

definition searchSql :: "collection \<Rightarrow> string" where
  "searchSql col =
     [CHR 0x0A] @ ''      SELECT '' @ [CHR 0x0A]
     @ ''        id,'' @ [CHR 0x0A]
     @ ''        VECTOR_DISTANCE(embedding, TO_VECTOR(:queryVector), '' @ metricText col
     @ '') as score,'' @ [CHR 0x0A]
     @ ''        text,'' @ [CHR 0x0A]
     @ ''        metadata,'' @ [CHR 0x0A]
     @ ''        embedding'' @ [CHR 0x0A]
     @ ''      FROM '' @ name col @ [CHR 0x0A]
     @ ''      WHERE namespace = :namespace'' @ [CHR 0x0A]
     @ ''    ''"

text \<open>
  The statement of \<^verbatim>\<open>search\<close>: the text of \<^verbatim>\<open>buildFilterConditions\<close>, when it is not
  empty, is pasted after \<^verbatim>\<open>AND\<close> in front of the \<^verbatim>\<open>ORDER BY\<close> clause with the row
  limit. The binds are the query vector, the namespace and \<open>topK\<close>. The second
  component is the list of fragments that the filter text renders.
\<close>

definition searchStatement ::
  "collection \<Rightarrow> queryRequest \<Rightarrow> vector \<Rightarrow> error + statement \<times> fragment list" where
  "searchStatement col request queryVector =
     (let topK = topKOf request;
          namespace = orElse (q_namespace request) ''default'';
          binds = [(''queryVector'', BindVector queryVector),
                   (''namespace'', BindString namespace),
                   (''topK'', BindNumber topK)];
          orderBy = '' ORDER BY score ASC FETCH FIRST :topK ROWS ONLY''
      in case q_filter request of
           None \<Rightarrow> Inr (\<lparr>stmt_sql = searchSql col @ orderBy, stmt_binds = binds\<rparr>, [])
         | Some flt \<Rightarrow>
             (case buildFilterConditions flt of
                Inl err \<Rightarrow> Inl err
              | Inr filterConditions \<Rightarrow>
                  Inr (\<lparr>stmt_sql =
                          (if filterConditions = [] then searchSql col
                           else searchSql col @ '' AND '' @ filterConditions) @ orderBy,
                        stmt_binds = binds\<rparr>,
                       case filterFragments flt of Inl err \<Rightarrow> [] | Inr conditions \<Rightarrow> conditions)))"

text \<open>
  \<^verbatim>\<open>search\<close> after the query vector is there: build the statement, run it, and turn
  the rows into matches. An error of the store is wrapped into a \<open>SearchError\<close>.
\<close>

definition runSearch ::
  "env \<Rightarrow> collection \<Rightarrow> queryRequest \<Rightarrow> vector \<Rightarrow> state \<Rightarrow> (error + queryResponse) \<times> state" where
  "runSearch e col request queryVector s =
     (case searchStatement col request queryVector of
        Inl err \<Rightarrow> (Inl err, s)
      | Inr (stmt, conditions) \<Rightarrow>
          (case execute e col conditions (table s) stmt of
             Inl cause \<Rightarrow> (Inl (SearchError (''Search failed: '' @ cause)), s)
           | Inr rows \<Rightarrow>
               (Inr \<lparr>r_matches = map (toMatch request) rows,
                     r_namespace = orElse (q_namespace request) ''default''\<rparr>, s)))"

definition search :: "env \<Rightarrow> collection \<Rightarrow> queryRequest \<Rightarrow> state \<Rightarrow> (error + queryResponse) \<times> state" where
  "search e col request s =
     (case resolveQueryVector e col request s of
        (Inl err, s1) \<Rightarrow> (Inl err, s1)
      | (Inr queryVector, s1) \<Rightarrow> runSearch e col request queryVector s1)"

section \<open>Notions that the properties are stated with\<close>

text \<open>What a lookup in the cache of the service gives at the state's time.\<close>

definition cached :: "state \<Rightarrow> string \<Rightarrow> string \<Rightarrow> vector option" where
  "cached s model txt = fst (cacheGet (clock s) (cacheKey model txt) (cache s))"

text \<open>A resolved vector passes the check of \<^verbatim>\<open>upsert\<close>: it is there and has the configured length.\<close>

fun dimensionOk :: "collection \<Rightarrow> vector option \<Rightarrow> bool" where
  "dimensionOk col None = False"
| "dimensionOk col (Some v) = (int (length v) = dimension (config col))"

text \<open>
  The reference evaluator of a filter, after the spec's words: a key with a literal is
  an implicit \<open>$eq\<close>, the operators under a key and the keys are conjoined, and the
  comparisons are typed: numbers compare as numbers, strings as strings, and values
  of different types are neither equal nor ordered. A document without the key does
  not satisfy a condition on it.
\<close>

fun typed_less :: "jsval \<Rightarrow> jsval \<Rightarrow> bool option" where
  "typed_less (JNum a) (JNum b) = Some (a < b)"
| "typed_less (JStr a) (JStr b) = Some (str_less a b)"
| "typed_less (JBool a) (JBool b) = Some (a < b)"
| "typed_less v w = None"

fun referenceOp :: "jsval \<Rightarrow> string \<times> jsval \<Rightarrow> bool" where
  "referenceOp dv (op, lit) =
     (if op = ''$eq'' then dv = lit
      else if op = ''$ne'' then dv \<noteq> lit
      else if op = ''$gt'' then typed_less lit dv = Some True
      else if op = ''$gte'' then typed_less dv lit = Some False
      else if op = ''$lt'' then typed_less dv lit = Some True
      else if op = ''$lte'' then typed_less lit dv = Some False
      else if op = ''$in'' then (case lit of JArr vs \<Rightarrow> dv \<in> set vs | _ \<Rightarrow> False)
      else False)"

fun referenceKey :: "record_any \<Rightarrow> string \<times> jsval \<Rightarrow> bool" where
  "referenceKey md (key, value) =
     (case map_of md key of
        None \<Rightarrow> False
      | Some dv \<Rightarrow> if isObject value then list_all (referenceOp dv) (entries value) else dv = value)"

definition referenceSelects :: "record_any \<Rightarrow> record_any \<Rightarrow> bool" where
  "referenceSelects flt md = list_all (referenceKey md) flt"

text \<open>The compiled predicate of a filter, as the store evaluates it on a row's metadata.\<close>

definition compiledSelects :: "record_any \<Rightarrow> record_any \<Rightarrow> bool" where
  "compiledSelects flt md =
     (case filterFragments flt of Inl err \<Rightarrow> False | Inr conditions \<Rightarrow> list_all (holds md) conditions)"

subsection \<open>Example data\<close>

definition dot :: "vector \<Rightarrow> vector \<Rightarrow> real" where
  "dot v w = sum_list (map (\<lambda>(x, y). x * y) (zip v w))"

definition cosineDistance :: "vector \<Rightarrow> vector \<Rightarrow> real" where
  "cosineDistance v w = 1 - dot v w / (sqrt (dot v v) * sqrt (dot w w))"

definition demoEnv :: env where
  "demoEnv =
     \<lparr>provider = (\<lambda>model texts. Inr (map (\<lambda>t. [real (length t), 0, 0, 0]) texts)),
      latency = 250,
      stringify = (\<lambda>md. ''{}''),
      vectorDistance = (\<lambda>m v w. cosineDistance v w),
      storeFails = (\<lambda>stmt. None),
      storeRows = (\<lambda>stmt tbl. [])\<rparr>"

definition failingEnv :: env where
  "failingEnv = demoEnv\<lparr>provider := (\<lambda>model texts. Inl ''Error: Connection error.'')\<rparr>"

definition emptyState :: state where
  "emptyState = \<lparr>table = [], cache = [], calls = [], clock = 0\<rparr>"

definition plainCollection :: collection where
  "plainCollection =
     \<lparr>name = ''docs'', apiKey = None,
      config = \<lparr>dimension = 4, metric = Some ''cosine'', embeddingModel = None\<rparr>\<rparr>"

definition embeddingCollection :: collection where
  "embeddingCollection =
     \<lparr>name = ''docs'', apiKey = Some ''sk-test'',
      config = \<lparr>dimension = 4, metric = Some ''cosine'', embeddingModel = Some ''text-embedding-ada-002''\<rparr>\<rparr>"

section \<open>Properties of the filter compiler\<close>

lemma collect_append:
  "collect f (xs @ ys) =
     (case collect f xs of
        Inl e \<Rightarrow> Inl e
      | Inr cs \<Rightarrow> (case collect f ys of Inl e \<Rightarrow> Inl e | Inr ds \<Rightarrow> Inr (cs @ ds)))"
  by (induction xs) (auto split: sum.splits)

lemma collect_error:
  "collect f xs = Inl e \<Longrightarrow> \<exists>x \<in> set xs. f x = Inl e"
  by (induction xs) (auto split: sum.splits)

lemma collect_same:
  "f x = f y \<Longrightarrow> collect f (pre @ x # post) = collect f (pre @ y # post)"
  by (induction pre) (simp_all split: sum.splits)

lemma opFragments_error:
  "opFragments key p = Inl e \<Longrightarrow> e = TypeError ''val.map is not a function''"
  by (cases p) (auto split: if_splits jsval.splits)

lemma keyFragments_error:
  "keyFragments p = Inl e \<Longrightarrow> e = TypeError ''val.map is not a function''"
  by (cases p) (auto split: if_splits dest!: collect_error opFragments_error)

lemma filterFragments_error:
  "filterFragments flt = Inl e \<Longrightarrow> e = TypeError ''val.map is not a function''"
  unfolding filterFragments_def by (auto dest!: collect_error keyFragments_error)

lemma keyFragments_drop:
  assumes "op \<notin> {''$eq'', ''$ne'', ''$gt'', ''$gte'', ''$lt'', ''$lte'', ''$in''}"
  shows "keyFragments (key, JObj (ops1 @ (op, v) # ops2)) = keyFragments (key, JObj (ops1 @ ops2))"
proof -
  from assms have "opFragments key (op, v) = Inr []"
    by simp
  then show ?thesis
    by (simp add: collect_append split: sum.splits)
qed

lemma filterFragments_drop:
  assumes "op \<notin> {''$eq'', ''$ne'', ''$gt'', ''$gte'', ''$lt'', ''$lte'', ''$in''}"
  shows "filterFragments (pre @ (key, JObj (ops1 @ (op, v) # ops2)) # post)
       = filterFragments (pre @ (key, JObj (ops1 @ ops2)) # post)"
  unfolding filterFragments_def
  by (rule collect_same) (rule keyFragments_drop [OF assms])

text \<open>
  Claim C1, at a filter whose value holds a quote: the value of an implicit \<open>$eq\<close> is
  pasted into the text of the predicate, between quotes that it can close itself.
  \<^verbatim>\<open>buildFilterConditions\<close> returns this text only; it has no bound parameters.
  For the filter \<^verbatim>\<open>{category: "x' OR '1'='1"}\<close> the predicate reads
  \<^verbatim>\<open>JSON_VALUE(metadata, '$.category') = 'x' OR '1'='1'\<close>.
\<close>

theorem filter_value_pasted_into_predicate:
  "buildFilterConditions [(''category'', JStr ''x' OR '1'='1'')] =
     Inr (''JSON_VALUE(metadata, '$.category') = 'x' OR '1'='1'' @ [CHR 0x27])"
  by (simp add: buildFilterConditions_def filterFragments_def jsonValue_def quoted_def)

text \<open>
  Claim C8, as the code has it: an operator key outside the seven of the \<^verbatim>\<open>switch\<close>
  adds no condition. The compiled predicate is that of the filter without this
  operator, and compilation does not fail with a \<open>ValidationError\<close>.
\<close>

theorem unsupported_operator_dropped:
  assumes "op \<notin> {''$eq'', ''$ne'', ''$gt'', ''$gte'', ''$lt'', ''$lte'', ''$in''}"
  shows "buildFilterConditions (pre @ (key, JObj (ops1 @ (op, v) # ops2)) # post)
           = buildFilterConditions (pre @ (key, JObj (ops1 @ ops2)) # post)
         \<and> buildFilterConditions (pre @ (key, JObj (ops1 @ (op, v) # ops2)) # post)
             \<noteq> Inl (ValidationError msg)"
proof -
  have "buildFilterConditions flt \<noteq> Inl (ValidationError msg)" for flt
    unfolding buildFilterConditions_def
    by (auto split: sum.splits dest: filterFragments_error)
  then show ?thesis
    unfolding buildFilterConditions_def [of "pre @ _"] filterFragments_drop [OF assms]
    by (simp add: buildFilterConditions_def)
qed

theorem unsupported_operator_dropped_witness:
  "buildFilterConditions
     [(''price'', JObj [(''$gte'', JNum 100), (''$regex'', JStr ''^1''), (''$lte'', JNum 200)])]
     = buildFilterConditions [(''price'', JObj [(''$gte'', JNum 100), (''$lte'', JNum 200)])]
   \<and> buildFilterConditions
     [(''price'', JObj [(''$gte'', JNum 100), (''$regex'', JStr ''^1''), (''$lte'', JNum 200)])]
     \<noteq> Inl (ValidationError ''unsupported operator'')"
  using unsupported_operator_dropped
    [of "''$regex''" "[]" "''price''" "[(''$gte'', JNum 100)]" "JStr ''^1''"
        "[(''$lte'', JNum 200)]" "[]" "''unsupported operator''"]
  by auto

text \<open>
  Claim C8 as stated fails: the filter \<^verbatim>\<open>{price: {$regex: "^1"}}\<close> compiles, to the
  empty predicate.
\<close>

theorem unsupported_operator_compiles:
  "buildFilterConditions [(''price'', JObj [(''$regex'', JStr ''^1'')])] = Inr []"
  by (simp add: buildFilterConditions_def filterFragments_def)


section \<open>Properties of the store statements\<close>

lemma mergeRow_others:
  "row_id b \<in> ids \<Longrightarrow>
   filter (\<lambda>r. row_id r \<notin> ids) (mergeRow tbl b) = filter (\<lambda>r. row_id r \<notin> ids) tbl"
  by (induction tbl) auto

lemma set_mergeRow:
  "set (mergeRow tbl b) \<subseteq> insert b (set tbl)"
  by (induction tbl) auto

lemma mergeRow_member: "b \<in> set (mergeRow tbl b)"
  by (induction tbl) auto

lemma mergeRow_ids:
  "row_id ` set (mergeRow tbl b) = insert (row_id b) (row_id ` set tbl)"
  by (induction tbl) auto

lemma mergeRow_distinct:
  "distinct (map row_id tbl) \<Longrightarrow> distinct (map row_id (mergeRow tbl b))"
proof (induction tbl)
  case Nil
  then show ?case by simp
next
  case (Cons r rs)
  have "row_id r \<notin> row_id ` set (mergeRow rs b)" if "row_id r \<noteq> row_id b"
    using that Cons.prems by (simp add: mergeRow_ids)
  with Cons show ?case by auto
qed

lemma mergeRow_same_id:
  "distinct (map row_id tbl) \<Longrightarrow> r \<in> set (mergeRow tbl b) \<Longrightarrow> row_id r = row_id b \<Longrightarrow> r = b"
  by (induction tbl) (auto split: if_splits simp: image_iff)

lemma executeMany_others:
  "row_id ` set binds \<subseteq> ids \<Longrightarrow>
   filter (\<lambda>r. row_id r \<notin> ids) (executeMany tbl binds) = filter (\<lambda>r. row_id r \<notin> ids) tbl"
  unfolding executeMany_def
  by (induction binds arbitrary: tbl) (auto simp: mergeRow_others)

lemma executeMany_distinct:
  "distinct (map row_id tbl) \<Longrightarrow> distinct (map row_id (executeMany tbl binds))"
  unfolding executeMany_def
  by (induction binds arbitrary: tbl) (auto simp: mergeRow_distinct)

lemma executeMany_ids:
  "row_id ` set (executeMany tbl binds) = row_id ` set binds \<union> row_id ` set tbl"
  unfolding executeMany_def
  by (induction binds arbitrary: tbl) (auto simp: mergeRow_ids)

lemma executeMany_namespace:
  assumes "distinct (map row_id tbl)"
    and "\<forall>b \<in> set binds. row_namespace b = ns"
    and "r \<in> set (executeMany tbl binds)"
    and "row_id r \<in> row_id ` set binds"
  shows "row_namespace r = ns"
  using assms unfolding executeMany_def
proof (induction binds arbitrary: tbl rule: rev_induct)
  case Nil
  then show ?case by simp
next
  case (snoc b bs)
  let ?t = "foldl mergeRow tbl bs"
  have d: "distinct (map row_id ?t)"
    using executeMany_distinct [OF snoc.prems(1)] by (simp add: executeMany_def)
  have r: "r \<in> set (mergeRow ?t b)"
    using snoc.prems(3) by simp
  show ?case
  proof (cases "row_id r = row_id b")
    case True
    then have "r = b" using mergeRow_same_id [OF d r] by simp
    then show ?thesis using snoc.prems(2) by simp
  next
    case False
    then have "r \<in> set ?t" "row_id r \<in> row_id ` set bs"
      using r set_mergeRow [of ?t b] snoc.prems(4) by auto
    then show ?thesis using snoc.IH [of tbl] snoc.prems(1,2) by simp
  qed
qed

section \<open>Properties of \<^verbatim>\<open>upsert\<close>\<close>

lemma buildBinds_rows:
  "buildBinds expected ns embeddings i docs = Inr binds \<Longrightarrow>
   map row_id binds = map doc_id docs \<and> (\<forall>b \<in> set binds. row_namespace b = ns)"
  by (induction docs arbitrary: i binds)
     (auto split: option.splits if_splits sum.splits simp: bindRow_def)

lemma upsert_success:
  assumes "fst (upsert e col request s) = Inr ()"
  obtains embeddings s1 binds where
    "upsertEmbeddings e col (u_documents request) s = (Inr embeddings, s1)"
    "buildBinds (dimension (config col)) (orElse (u_namespace request) ''default'') embeddings 0
       (u_documents request) = Inr binds"
    "snd (upsert e col request s) = s1\<lparr>table := executeMany (table s1) binds\<rparr>"
  using assms unfolding upsert_def Let_def
  by (auto split: if_splits prod.splits sum.splits)


lemma embedWith_table: "table (snd (embedWith split e model texts s)) = table s"
  unfolding embedWith_def Let_def
  by (auto split: prod.splits sum.splits)

lemma upsertEmbeddings_table: "table (snd (upsertEmbeddings e col docs s)) = table s"
  unfolding upsertEmbeddings_def embed_def
  by (simp add: embedWith_table)

text \<open>
  Claim C3, as the code has it: documents are keyed by the id alone, which is the
  primary key of the table and the only column in the \<^verbatim>\<open>ON\<close> clause of the merge.
  After an upsert that succeeds, on a table with one row per id, the rows with an id
  outside the batch are as before, every id of the batch has a row, each row with an id
  of the batch is in the namespace of the request (whatever namespace held that id
  before), and there is still one row per id.
\<close>

theorem upsert_keyed_by_id:
  assumes ok: "fst (upsert e col request s) = Inr ()"
    and dist: "distinct (map row_id (table s))"
  defines "ids \<equiv> doc_id ` set (u_documents request)"
    and "tbl' \<equiv> table (snd (upsert e col request s))"
  shows "filter (\<lambda>r. row_id r \<notin> ids) tbl' = filter (\<lambda>r. row_id r \<notin> ids) (table s)
       \<and> ids \<subseteq> row_id ` set tbl'
       \<and> (\<forall>r \<in> set tbl'. row_id r \<in> ids \<longrightarrow> row_namespace r = orElse (u_namespace request) ''default'')
       \<and> distinct (map row_id tbl')"
proof -
  from ok obtain embeddings s1 binds where
    emb: "upsertEmbeddings e col (u_documents request) s = (Inr embeddings, s1)" and
    bb: "buildBinds (dimension (config col)) (orElse (u_namespace request) ''default'') embeddings 0
       (u_documents request) = Inr binds" and
    res: "snd (upsert e col request s) = s1\<lparr>table := executeMany (table s1) binds\<rparr>"
    by (rule upsert_success)
  have t1: "table s1 = table s"
    using upsertEmbeddings_table [of e col "u_documents request" s] emb by simp
  have tbl': "tbl' = executeMany (table s) binds"
    by (simp add: tbl'_def res t1)
  from buildBinds_rows [OF bb] have
    bids: "map row_id binds = map doc_id (u_documents request)" and
    bns: "\<forall>b \<in> set binds. row_namespace b = orElse (u_namespace request) ''default''"
    by simp_all
  have ids: "row_id ` set binds = ids"
    using bids unfolding ids_def by (metis list.set_map)
  have 1: "filter (\<lambda>r. row_id r \<notin> ids) tbl' = filter (\<lambda>r. row_id r \<notin> ids) (table s)"
    unfolding tbl' by (rule executeMany_others) (simp add: ids)
  have 2: "ids \<subseteq> row_id ` set tbl'"
    unfolding tbl' executeMany_ids ids by simp
  have 3: "\<forall>r \<in> set tbl'. row_id r \<in> ids \<longrightarrow> row_namespace r = orElse (u_namespace request) ''default''"
    unfolding tbl' using executeMany_namespace [OF dist bns] ids by blast
  have 4: "distinct (map row_id tbl')"
    unfolding tbl' by (rule executeMany_distinct [OF dist])
  from 1 2 3 4 show ?thesis by blast
qed

text \<open>
  Claim C3 as stated fails: with id \<open>x\<close> in namespace \<open>a\<close>, an upsert of id \<open>x\<close>
  into namespace \<open>b\<close> leaves one row, in namespace \<open>b\<close> and with the new content;
  no document \<open>x\<close> is left in namespace \<open>a\<close>.
\<close>

theorem upsert_moves_namespace:
  "table (snd (upsert demoEnv plainCollection
      \<lparr>u_documents = [\<lparr>doc_id = ''x'', doc_text = Some ''in b'', doc_metadata = None,
                        doc_vector = Some [0, 1, 0, 0]\<rparr>],
       u_namespace = Some ''b''\<rparr>
      (emptyState\<lparr>table :=
         [\<lparr>row_id = ''x'', row_embedding = [1, 0, 0, 0], row_text = Some ''in a'',
            row_metadata = [], row_namespace = ''a''\<rparr>]\<rparr>)))
   = [\<lparr>row_id = ''x'', row_embedding = [0, 1, 0, 0], row_text = Some ''in b'',
        row_metadata = [], row_namespace = ''b''\<rparr>]"
  by (simp add: upsert_def upsertEmbeddings_def embeddingService_def plainCollection_def
      emptyState_def resolveVector_def bindRow_def executeMany_def)


lemma buildBinds_first_failure:
  assumes "i < length docs"
    and "\<not> dimensionOk col (resolveVector (docs ! i) embeddings (k + i))"
  shows "\<exists>j got. j \<le> i
           \<and> \<not> dimensionOk col (resolveVector (docs ! j) embeddings (k + j))
           \<and> buildBinds (dimension (config col)) ns embeddings k docs
               = Inl (mismatch (doc_id (docs ! j)) (dimension (config col)) got)"
  using assms
proof (induction docs arbitrary: i k)
  case Nil
  then show ?case by simp
next
  case (Cons d ds)
  show ?case
  proof (cases "dimensionOk col (resolveVector d embeddings k)")
    case False
    then obtain got where "buildBinds (dimension (config col)) ns embeddings k (d # ds)
                 = Inl (mismatch (doc_id d) (dimension (config col)) got)"
      by (cases "resolveVector d embeddings k") auto
    with False show ?thesis
      by (intro exI [of _ 0] exI [of _ got]) simp
  next
    case True
    with Cons.prems obtain i' where i': "i = Suc i'"
      by (cases i) auto
    with Cons.prems have "i' < length ds"
      and "\<not> dimensionOk col (resolveVector (ds ! i') embeddings (Suc k + i'))"
      by simp_all
    from Cons.IH [OF this] obtain j got where
      j: "j \<le> i'" "\<not> dimensionOk col (resolveVector (ds ! j) embeddings (Suc k + j))"
        "buildBinds (dimension (config col)) ns embeddings (Suc k) ds
           = Inl (mismatch (doc_id (ds ! j)) (dimension (config col)) got)"
      by blast
    from True obtain v where v: "resolveVector d embeddings k = Some v"
      "int (length v) = dimension (config col)"
      by (cases "resolveVector d embeddings k") auto
    have "buildBinds (dimension (config col)) ns embeddings k (d # ds)
           = Inl (mismatch (doc_id ((d # ds) ! Suc j)) (dimension (config col)) got)"
      using v j(3) by simp
    with j(1,2) i' show ?thesis
      by (intro exI [of _ "Suc j"] exI [of _ got]) simp
  qed
qed

text \<open>
  The check of \<^verbatim>\<open>upsert\<close>, once the embedding step has returned: when the document at
  position \<open>i\<close> has no resolved vector or one of another length than the configured
  dimension, the error is that of \<open>mismatch\<close> for the first such document, and the
  table is as before.
\<close>

lemma upsert_validation_failure:
  assumes emb: "upsertEmbeddings e col (u_documents request) s = (Inr embeddings, s1)"
    and i: "i < length (u_documents request)"
    and bad: "\<not> dimensionOk col (resolveVector (u_documents request ! i) embeddings i)"
  shows "\<exists>j got. j \<le> i
           \<and> \<not> dimensionOk col (resolveVector (u_documents request ! j) embeddings j)
           \<and> fst (upsert e col request s)
               = Inl (mismatch (doc_id (u_documents request ! j)) (dimension (config col)) got)
           \<and> table (snd (upsert e col request s)) = table s"
proof -
  from i have ne: "u_documents request \<noteq> []"
    by auto
  from buildBinds_first_failure [of i "u_documents request" col embeddings 0
      "orElse (u_namespace request) ''default''"] i bad
  obtain j got where
    j: "j \<le> i" "\<not> dimensionOk col (resolveVector (u_documents request ! j) embeddings j)"
      "buildBinds (dimension (config col)) (orElse (u_namespace request) ''default'') embeddings 0
         (u_documents request)
         = Inl (mismatch (doc_id (u_documents request ! j)) (dimension (config col)) got)"
    by auto
  have t1: "table s1 = table s"
    using upsertEmbeddings_table [of e col "u_documents request" s] emb by simp
  have "upsert e col request s
          = (Inl (mismatch (doc_id (u_documents request ! j)) (dimension (config col)) got), s1)"
    using ne emb j(3) by (simp add: upsert_def)
  with j(1,2) t1 show ?thesis
    by auto
qed

text \<open>
  Claim C6, at a document with both a text and a vector, in a collection with an
  embedding service: the explicit vector is the one stored, but the text of the
  document has been sent to the provider (one call, for \<^verbatim>\<open>hello\<close>) and its embedding
  is in the cache. \<^verbatim>\<open>upsert\<close> embeds the texts of all documents before it looks at
  their vectors.
\<close>

theorem explicit_vector_still_embedded:
  "upsert demoEnv embeddingCollection
     \<lparr>u_documents = [\<lparr>doc_id = ''x'', doc_text = Some ''hello'', doc_metadata = None,
                       doc_vector = Some [1, 0, 0, 0]\<rparr>],
      u_namespace = None\<rparr>
     emptyState
   = (Inr (),
      \<lparr>table = [\<lparr>row_id = ''x'', row_embedding = [1, 0, 0, 0], row_text = Some ''hello'',
                  row_metadata = [], row_namespace = ''default''\<rparr>],
       cache = [(''text-embedding-ada-002:hello'', [5, 0, 0, 0], 250)],
       calls = [(''text-embedding-ada-002'', [''hello''])],
       clock = 250\<rparr>)"
  by (simp add: upsert_def upsertEmbeddings_def embeddingService_def embeddingCollection_def
      emptyState_def demoEnv_def modelOf_def textToEmbed_def embed_def embedWith_def
      cacheGet_def cacheKey_def createBatches.simps runBatch_def cacheSet_def cacheMax_def
      without_def arraySet_def resolveVector_def bindRow_def executeMany_def)

text \<open>
  An instance: id \<open>x\<close> and id \<open>y\<close> are in namespace \<open>a\<close>, and \<open>x\<close> is upserted
  into namespace \<open>b\<close>.
\<close>

theorem upsert_keyed_by_id_witness:
  "fst (upsert demoEnv plainCollection
      \<lparr>u_documents = [\<lparr>doc_id = ''x'', doc_text = None, doc_metadata = None,
                        doc_vector = Some [0, 1, 0, 0]\<rparr>],
       u_namespace = Some ''b''\<rparr>
      (emptyState\<lparr>table :=
         [\<lparr>row_id = ''x'', row_embedding = [1, 0, 0, 0], row_text = None,
            row_metadata = [], row_namespace = ''a''\<rparr>,
          \<lparr>row_id = ''y'', row_embedding = [0, 0, 1, 0], row_text = None,
            row_metadata = [], row_namespace = ''a''\<rparr>]\<rparr>)) = Inr ()
   \<and> filter (\<lambda>r. row_id r \<noteq> ''x'')
       (table (snd (upsert demoEnv plainCollection
          \<lparr>u_documents = [\<lparr>doc_id = ''x'', doc_text = None, doc_metadata = None,
                            doc_vector = Some [0, 1, 0, 0]\<rparr>],
           u_namespace = Some ''b''\<rparr>
          (emptyState\<lparr>table :=
             [\<lparr>row_id = ''x'', row_embedding = [1, 0, 0, 0], row_text = None,
                row_metadata = [], row_namespace = ''a''\<rparr>,
              \<lparr>row_id = ''y'', row_embedding = [0, 0, 1, 0], row_text = None,
                row_metadata = [], row_namespace = ''a''\<rparr>]\<rparr>))))
     = [\<lparr>row_id = ''y'', row_embedding = [0, 0, 1, 0], row_text = None,
          row_metadata = [], row_namespace = ''a''\<rparr>]
   \<and> distinct (map row_id
       (table (snd (upsert demoEnv plainCollection
          \<lparr>u_documents = [\<lparr>doc_id = ''x'', doc_text = None, doc_metadata = None,
                            doc_vector = Some [0, 1, 0, 0]\<rparr>],
           u_namespace = Some ''b''\<rparr>
          (emptyState\<lparr>table :=
             [\<lparr>row_id = ''x'', row_embedding = [1, 0, 0, 0], row_text = None,
                row_metadata = [], row_namespace = ''a''\<rparr>,
              \<lparr>row_id = ''y'', row_embedding = [0, 0, 1, 0], row_text = None,
                row_metadata = [], row_namespace = ''a''\<rparr>]\<rparr>)))))"
proof -
  let ?req = "\<lparr>u_documents = [\<lparr>doc_id = ''x'', doc_text = None, doc_metadata = None,
                        doc_vector = Some [0, 1, 0, 0]\<rparr>],
       u_namespace = Some ''b''\<rparr>"
  let ?s = "emptyState\<lparr>table :=
         [\<lparr>row_id = ''x'', row_embedding = [1, 0, 0, 0], row_text = None,
            row_metadata = [], row_namespace = ''a''\<rparr>,
          \<lparr>row_id = ''y'', row_embedding = [0, 0, 1, 0], row_text = None,
            row_metadata = [], row_namespace = ''a''\<rparr>]\<rparr>"
  have ok: "fst (upsert demoEnv plainCollection ?req ?s) = Inr ()"
    by (simp add: upsert_def upsertEmbeddings_def embeddingService_def plainCollection_def
        emptyState_def resolveVector_def)
  have dist: "distinct (map row_id (table ?s))"
    by simp
  note t = upsert_keyed_by_id [OF ok dist]
  from t [THEN conjunct1]
  have "filter (\<lambda>r. row_id r \<noteq> ''x'') (table (snd (upsert demoEnv plainCollection ?req ?s)))
      = [\<lparr>row_id = ''y'', row_embedding = [0, 0, 1, 0], row_text = None,
          row_metadata = [], row_namespace = ''a''\<rparr>]"
    by simp
  with ok t [THEN conjunct2, THEN conjunct2, THEN conjunct2] show ?thesis
    by simp
qed

section \<open>Properties of the embedding service\<close>

lemma find_without:
  "k' \<noteq> k \<Longrightarrow> find (\<lambda>e. fst e = k') (without k c) = find (\<lambda>e. fst e = k') c"
  by (induction c) (auto simp: without_def)

lemma find_without_same:
  "find (\<lambda>e. fst e = k) (without k c) = None"
  by (induction c) (auto simp: without_def)

lemma find_key:
  "find (\<lambda>e. fst e = k) c = Some e \<Longrightarrow> fst e = k"
  by (induction c) (auto split: if_splits)

lemma cacheGet_fst:
  "fst (cacheGet now k c) =
     (case find (\<lambda>e. fst e = k) c of
        None \<Rightarrow> None
      | Some e \<Rightarrow> if stale now e then None else Some (fst (snd e)))"
  by (simp add: cacheGet_def split: option.splits)

lemma find_after_get_other:
  "k' \<noteq> k \<Longrightarrow>
   find (\<lambda>e. fst e = k') (snd (cacheGet now k c)) = find (\<lambda>e. fst e = k') c"
  by (auto simp: cacheGet_def find_without split: option.splits dest: find_key)

lemma find_after_get_same:
  "find (\<lambda>e. fst e = k) (snd (cacheGet now k c)) =
     (case find (\<lambda>e. fst e = k) c of
        None \<Rightarrow> None
      | Some e \<Rightarrow> if stale now e then None else Some e)"
  by (auto simp: cacheGet_def find_without_same split: option.splits dest: find_key)

lemma cacheGet_peek:
  "fst (cacheGet now k' (snd (cacheGet now k c))) = fst (cacheGet now k' c)"
proof (cases "k' = k")
  case True
  then show ?thesis
    by (simp add: cacheGet_fst find_after_get_same split: option.splits)
next
  case False
  then show ?thesis
    unfolding cacheGet_fst by (simp add: find_after_get_other)
qed

lemma arraySet_length:
  "length (arraySet xs i v) = max (length xs) (Suc i)"
  by (auto simp: arraySet_def)

lemma arrayGet_arraySet:
  "arrayGet (arraySet xs i v) j = (if j = i then Some v else arrayGet xs j)"
  by (auto simp: arraySet_def arrayGet_def nth_append)

lemma arrayGet_Some_length:
  "arrayGet xs j = Some v \<Longrightarrow> j < length xs"
  by (auto simp: arrayGet_def split: if_splits)

lemma scanCache_peek:
  "scanCache now model i ts (results, toEmbed, c) = (results', toEmbed', c') \<Longrightarrow>
   fst (cacheGet now k c') = fst (cacheGet now k c)"
proof (induction ts arbitrary: i results toEmbed c)
  case Nil
  then show ?case by simp
next
  case (Cons t ts)
  obtain r c1 where g: "cacheGet now (cacheKey model t) c = (r, c1)"
    by (cases "cacheGet now (cacheKey model t) c")
  have "fst (cacheGet now k c1) = fst (cacheGet now k c)"
    using cacheGet_peek [of now k "cacheKey model t" c] g by simp
  moreover have "fst (cacheGet now k c') = fst (cacheGet now k c1)"
    using Cons.prems g by (cases r) (auto dest: Cons.IH)
  ultimately show ?case by simp
qed

lemma scanCache_length:
  "scanCache now model i ts (results, toEmbed, c) = (results', toEmbed', c') \<Longrightarrow>
   length results' \<le> max (length results) (i + length ts)"
proof (induction ts arbitrary: i results toEmbed c)
  case Nil
  then show ?case by simp
next
  case (Cons t ts)
  obtain r c1 where g: "cacheGet now (cacheKey model t) c = (r, c1)"
    by (cases "cacheGet now (cacheKey model t) c")
  show ?case
  proof (cases r)
    case None
    with Cons.prems g have "scanCache now model (Suc i) ts (results, toEmbed @ [(t, i)], c1)
        = (results', toEmbed', c')" by simp
    from Cons.IH [OF this] show ?thesis by simp
  next
    case (Some v)
    with Cons.prems g have "scanCache now model (Suc i) ts (arraySet results i v, toEmbed, c1)
        = (results', toEmbed', c')" by simp
    from Cons.IH [OF this] show ?thesis by (simp add: arraySet_length)
  qed
qed

lemma scanCache_below:
  "scanCache now model i ts (results, toEmbed, c) = (results', toEmbed', c') \<Longrightarrow>
   j < i \<Longrightarrow> arrayGet results' j = arrayGet results j"
proof (induction ts arbitrary: i results toEmbed c)
  case Nil
  then show ?case by simp
next
  case (Cons t ts)
  obtain r c1 where g: "cacheGet now (cacheKey model t) c = (r, c1)"
    by (cases "cacheGet now (cacheKey model t) c")
  show ?case
  proof (cases r)
    case None
    with Cons.prems g have "scanCache now model (Suc i) ts (results, toEmbed @ [(t, i)], c1)
        = (results', toEmbed', c')" by simp
    from Cons.IH [OF this] Cons.prems(2) show ?thesis by simp
  next
    case (Some v)
    with Cons.prems g have "scanCache now model (Suc i) ts (arraySet results i v, toEmbed, c1)
        = (results', toEmbed', c')" by simp
    from Cons.IH [OF this] Cons.prems(2) show ?thesis by (simp add: arrayGet_arraySet)
  qed
qed

lemma scanCache_hit:
  "scanCache now model i ts (results, toEmbed, c) = (results', toEmbed', c') \<Longrightarrow>
   (j, t) \<in> set (enumerate i ts) \<Longrightarrow>
   fst (cacheGet now (cacheKey model t) c) = Some v \<Longrightarrow>
   arrayGet results' j = Some v"
proof (induction ts arbitrary: i results toEmbed c)
  case Nil
  then show ?case by simp
next
  case (Cons t0 ts)
  obtain r c1 where g: "cacheGet now (cacheKey model t0) c = (r, c1)"
    by (cases "cacheGet now (cacheKey model t0) c")
  have peek: "fst (cacheGet now (cacheKey model t) c1) = Some v"
    using cacheGet_peek [of now "cacheKey model t" "cacheKey model t0" c] g Cons.prems(3) by simp
  obtain results1 toEmbed1 where
    rec: "scanCache now model (Suc i) ts (results1, toEmbed1, c1) = (results', toEmbed', c')"
    and r1: "r = None \<longrightarrow> results1 = results"
    and r2: "\<forall>w. r = Some w \<longrightarrow> results1 = arraySet results i w"
    using Cons.prems(1) g by (cases r) auto
  from Cons.prems(2) consider "j = i" "t = t0" | "(j, t) \<in> set (enumerate (Suc i) ts)"
    by auto
  then show ?case
  proof cases
    case 1
    with g Cons.prems(3) have "r = Some v" by simp
    with r2 have "arrayGet results1 i = Some v" by (simp add: arrayGet_arraySet)
    with scanCache_below [OF rec, of i] 1 show ?thesis by simp
  next
    case 2
    from Cons.IH [OF rec 2 peek] show ?thesis .
  qed
qed

lemma scanCache_mono:
  "scanCache now model i ts (results, toEmbed, c) = (results', toEmbed', c') \<Longrightarrow>
   set toEmbed \<subseteq> set toEmbed'"
proof (induction ts arbitrary: i results toEmbed c)
  case Nil
  then show ?case by simp
next
  case (Cons t ts)
  obtain r c1 where g: "cacheGet now (cacheKey model t) c = (r, c1)"
    by (cases "cacheGet now (cacheKey model t) c")
  show ?case
  proof (cases r)
    case None
    with Cons.prems g have "scanCache now model (Suc i) ts (results, toEmbed @ [(t, i)], c1)
        = (results', toEmbed', c')" by simp
    from Cons.IH [OF this] show ?thesis by simp
  next
    case (Some v)
    with Cons.prems g have "scanCache now model (Suc i) ts (arraySet results i v, toEmbed, c1)
        = (results', toEmbed', c')" by simp
    from Cons.IH [OF this] show ?thesis by simp
  qed
qed

lemma scanCache_miss:
  "scanCache now model i ts (results, toEmbed, c) = (results', toEmbed', c') \<Longrightarrow>
   (j, t) \<in> set (enumerate i ts) \<Longrightarrow>
   fst (cacheGet now (cacheKey model t) c) = None \<Longrightarrow>
   (t, j) \<in> set toEmbed'"
proof (induction ts arbitrary: i results toEmbed c)
  case Nil
  then show ?case by simp
next
  case (Cons t0 ts)
  obtain r c1 where g: "cacheGet now (cacheKey model t0) c = (r, c1)"
    by (cases "cacheGet now (cacheKey model t0) c")
  have peek: "fst (cacheGet now (cacheKey model t) c1) = None"
    using cacheGet_peek [of now "cacheKey model t" "cacheKey model t0" c] g Cons.prems(3) by simp
  obtain results1 toEmbed1 where
    rec: "scanCache now model (Suc i) ts (results1, toEmbed1, c1) = (results', toEmbed', c')"
    and r1: "r = None \<longrightarrow> toEmbed1 = toEmbed @ [(t0, i)]"
    using Cons.prems(1) g by (cases r) auto
  from Cons.prems(2) consider "j = i" "t = t0" | "(j, t) \<in> set (enumerate (Suc i) ts)"
    by auto
  then show ?case
  proof cases
    case 1
    with g Cons.prems(3) have "r = None" by simp
    with r1 1 have "(t, j) \<in> set toEmbed1" by simp
    with scanCache_mono [OF rec] show ?thesis by auto
  next
    case 2
    from Cons.IH [OF rec 2 peek] show ?thesis .
  qed
qed

lemma scanCache_sound:
  "scanCache now model i ts (results, toEmbed, c) = (results', toEmbed', c') \<Longrightarrow>
   (t, j) \<in> set toEmbed' \<Longrightarrow>
   (t, j) \<in> set toEmbed
   \<or> ((j, t) \<in> set (enumerate i ts) \<and> fst (cacheGet now (cacheKey model t) c) = None)"
proof (induction ts arbitrary: i results toEmbed c)
  case Nil
  then show ?case by simp
next
  case (Cons t0 ts)
  obtain r c1 where g: "cacheGet now (cacheKey model t0) c = (r, c1)"
    by (cases "cacheGet now (cacheKey model t0) c")
  have peek: "fst (cacheGet now k c1) = fst (cacheGet now k c)" for k
    using cacheGet_peek [of now k "cacheKey model t0" c] g by simp
  show ?case
  proof (cases r)
    case None
    with Cons.prems g have "scanCache now model (Suc i) ts (results, toEmbed @ [(t0, i)], c1)
        = (results', toEmbed', c')" by simp
    from Cons.IH [OF this Cons.prems(2)] None g show ?thesis
      by (auto simp: peek)
  next
    case (Some v)
    with Cons.prems g have "scanCache now model (Suc i) ts (arraySet results i v, toEmbed, c1)
        = (results', toEmbed', c')" by simp
    from Cons.IH [OF this Cons.prems(2)] show ?thesis
      by (auto simp: peek)
  qed
qed

lemma writeBack_length:
  "writeBack now model texts ps (results, c) = (results', c') \<Longrightarrow>
   \<forall>p \<in> set ps. fst p < n \<Longrightarrow> length results \<le> n \<Longrightarrow> length results' \<le> n"
proof (induction ps arbitrary: results c)
  case Nil
  then show ?case by simp
next
  case (Cons p ps)
  obtain index embedding where p: "p = (index, embedding)" by (cases p)
  from Cons.prems p have
    "writeBack now model texts ps
       (arraySet results index embedding,
        cacheSet now (cacheKey model (texts ! index)) embedding c) = (results', c')"
    by simp
  from Cons.IH [OF this] Cons.prems p show ?case
    by (simp add: arraySet_length)
qed

lemma writeBack_get:
  "writeBack now model texts ps (results, c) = (results', c') \<Longrightarrow>
   \<forall>p \<in> set ps. snd p = f (fst p) \<Longrightarrow>
   arrayGet results' j = (if j \<in> fst ` set ps then Some (f j) else arrayGet results j)"
proof (induction ps arbitrary: results c)
  case Nil
  then show ?case by simp
next
  case (Cons p ps)
  obtain index embedding where p: "p = (index, embedding)" by (cases p)
  from Cons.prems p have
    "writeBack now model texts ps
       (arraySet results index embedding,
        cacheSet now (cacheKey model (texts ! index)) embedding c) = (results', c')"
    by simp
  from Cons.IH [OF this] Cons.prems(2) p show ?case
    by (auto simp: arrayGet_arraySet)
qed

lemma promiseAll_Inr:
  "promiseAll (map (\<lambda>b. Inr (g b)) bs) = Inr (map g bs)"
  by (induction bs) auto

lemma runBatch_pointwise:
  assumes "\<forall>ts. provider e model ts = Inr (map emb ts)"
  shows "runBatch e model batch = Inr (map (\<lambda>item. (snd item, emb (fst item))) batch)"
proof -
  have "zip batch (map emb (map fst batch)) = map (\<lambda>item. (item, emb (fst item))) batch"
    by (induction batch) auto
  with assms show ?thesis
    by (simp add: runBatch_def)
qed

lemma sparse_complete:
  assumes "length rs \<le> n" and "\<forall>j < n. arrayGet rs j = Some (g j)"
  shows "rs = map (\<lambda>j. Some (g j)) [0..<n]"
proof -
  have "length rs = n"
  proof (cases n)
    case 0
    with assms show ?thesis by simp
  next
    case (Suc m)
    with assms(2) have "arrayGet rs m = Some (g m)" by simp
    then have "m < length rs" by (rule arrayGet_Some_length)
    with Suc assms(1) show ?thesis by simp
  qed
  moreover have "rs ! j = Some (g j)" if "j < n" for j
    using assms(2) that \<open>length rs = n\<close> by (auto simp: arrayGet_def)
  ultimately show ?thesis
    by (auto intro: nth_equalityI)
qed


lemma concat_createBatches:
  "0 < n \<Longrightarrow> concat (createBatches xs n) = xs"
proof (induction xs n rule: createBatches.induct)
  case (1 items batchSize)
  show ?case
  proof (cases "items = []")
    case True
    then show ?thesis by (simp add: createBatches.simps)
  next
    case False
    with 1 show ?thesis
      by (subst createBatches.simps) simp
  qed
qed

lemma map_by_index:
  "map (\<lambda>j. f (xs ! j)) [0..<length xs] = map f xs"
  by (rule nth_equalityI) simp_all

lemma embedWith_result:
  assumes prov: "\<forall>ts. provider e model ts = Inr (map emb ts)"
    and split: "\<forall>xs. set (concat (split xs)) = set xs"
  shows "fst (embedWith split e model texts s)
       = Inr (map (\<lambda>t. Some (case cached s model t of Some v \<Rightarrow> v | None \<Rightarrow> emb t)) texts)"
proof -
  let ?now = "clock s"
  let ?n = "length texts"
  let ?g = "\<lambda>t. case cached s model t of Some v \<Rightarrow> v | None \<Rightarrow> emb t"
  obtain results toEmbed c1 where
    sc: "scanCache ?now model 0 texts ([], [], cache s) = (results, toEmbed, c1)"
    by (cases "scanCache ?now model 0 texts ([], [], cache s)") auto
  have enum: "(j, texts ! j) \<in> set (enumerate 0 texts)" if "j < ?n" for j
    using that by (simp add: in_set_enumerate_eq)
  have len: "length results \<le> ?n"
    using scanCache_length [OF sc] by simp
  have hit: "arrayGet results j = Some v"
    if "j < ?n" "cached s model (texts ! j) = Some v" for j v
    using scanCache_hit [OF sc enum [OF that(1)]] that(2) by (simp add: cached_def)
  have miss: "(texts ! j, j) \<in> set toEmbed"
    if "j < ?n" "cached s model (texts ! j) = None" for j
    using scanCache_miss [OF sc enum [OF that(1)]] that(2) by (simp add: cached_def)
  have sound: "j < ?n \<and> t = texts ! j \<and> cached s model t = None"
    if "(t, j) \<in> set toEmbed" for t j
    using scanCache_sound [OF sc that] by (auto simp: in_set_enumerate_eq cached_def)
  have final: "rs = map (\<lambda>t. Some (?g t)) texts"
    if "length rs \<le> ?n" "\<forall>j < ?n. arrayGet rs j = Some (?g (texts ! j))" for rs
    using sparse_complete [OF that] map_by_index [of "\<lambda>t. Some (?g t)" texts] by simp
  show ?thesis
  proof (cases "toEmbed = []")
    case True
    have "\<forall>j < ?n. arrayGet results j = Some (?g (texts ! j))"
    proof (intro allI impI)
      fix j assume j: "j < ?n"
      with miss [of j] True obtain v where "cached s model (texts ! j) = Some v"
        by (cases "cached s model (texts ! j)") auto
      with hit [OF j] show "arrayGet results j = Some (?g (texts ! j))"
        by simp
    qed
    from final [OF len this] sc True show ?thesis
      by (simp add: embedWith_def)
  next
    case False
    let ?h = "\<lambda>item :: string \<times> nat. (snd item, emb (fst item))"
    let ?ps = "map ?h (concat (split toEmbed))"
    have "map (runBatch e model) (split toEmbed) = map (\<lambda>b. Inr (map ?h b)) (split toEmbed)"
      using runBatch_pointwise [OF prov] by simp
    then have all: "promiseAll (map (runBatch e model) (split toEmbed))
        = Inr (map (map ?h) (split toEmbed))"
      by (simp only: promiseAll_Inr)
    have cc: "concat (map (map ?h) (split toEmbed)) = ?ps"
      by (simp add: map_concat)
    have setps: "set ?ps = ?h ` set toEmbed"
      using split by simp
    obtain results' c2 where
      wb: "writeBack (?now + latency e) model texts ?ps (results, c1) = (results', c2)"
      by (cases "writeBack (?now + latency e) model texts ?ps (results, c1)") auto
    have res: "fst (embedWith split e model texts s) = Inr results'"
      using sc False all cc wb by (simp add: embedWith_def Let_def)
    have idx: "\<forall>p \<in> set ?ps. fst p < ?n"
      unfolding setps using sound by auto
    have val: "\<forall>p \<in> set ?ps. snd p = emb (texts ! fst p)"
      unfolding setps using sound by auto
    have len': "length results' \<le> ?n"
      using writeBack_length [OF wb idx len] .
    have "\<forall>j < ?n. arrayGet results' j = Some (?g (texts ! j))"
    proof (intro allI impI)
      fix j assume j: "j < ?n"
      note get = writeBack_get [OF wb val, of j]
      show "arrayGet results' j = Some (?g (texts ! j))"
      proof (cases "cached s model (texts ! j)")
        case None
        from miss [OF j None] have "j \<in> fst ` set ?ps"
          unfolding setps by force
        with get None show ?thesis by simp
      next
        case (Some v)
        have "j \<notin> fst ` set ?ps"
        proof
          assume "j \<in> fst ` set ?ps"
          then obtain t where "(t, j) \<in> set toEmbed"
            unfolding setps by auto
          from sound [OF this] Some show False by auto
        qed
        with get hit [OF j Some] Some show ?thesis by simp
      qed
    qed
    from final [OF len' this] res show ?thesis
      by simp
  qed
qed

text \<open>
  Claim C4: \<^verbatim>\<open>embed\<close> keeps the order of the texts. For a provider that returns one
  vector for each text of a call, in the order of the texts, \<^verbatim>\<open>embed\<close> returns a list
  as long as the texts and without holes, whose entry at each position is the cached
  vector of the text at this position, or else the provider's embedding of it. The
  same holds for every way of splitting the misses into batches, in any order, that
  keeps all of them, with the batches of 100 of the source as one instance. \<^verbatim>\<open>Promise.all\<close> gives the
  results of the batches in the order of the batches, whatever the order in which
  they complete.
\<close>

theorem embed_order_preserving:
  assumes "\<forall>ts. provider e model ts = Inr (map emb ts)"
  shows "fst (embed e model texts s)
           = Inr (map (\<lambda>t. Some (case cached s model t of Some v \<Rightarrow> v | None \<Rightarrow> emb t)) texts)
       \<and> ((\<forall>xs. set (concat (split xs)) = set xs) \<longrightarrow>
            fst (embedWith split e model texts s) = fst (embed e model texts s))"
proof -
  have "\<forall>xs :: (string \<times> nat) list. set (concat (createBatches xs 100)) = set xs"
    by (simp add: concat_createBatches)
  from embedWith_result [OF assms this]
  have 1: "fst (embed e model texts s)
      = Inr (map (\<lambda>t. Some (case cached s model t of Some v \<Rightarrow> v | None \<Rightarrow> emb t)) texts)"
    by (simp add: embed_def)
  have "fst (embedWith split e model texts s) = fst (embed e model texts s)"
    if "\<forall>xs. set (concat (split xs)) = set xs"
    using embedWith_result [OF assms that] 1 by simp
  with 1 show ?thesis
    by blast
qed


text \<open>
  An instance: the second of three texts is cached; the misses are split into batches of
  100, and into batches of one text in reverse order.
\<close>

theorem embed_order_preserving_witness:
  "fst (embed demoEnv ''m'' [''a'', ''bb'', ''ccc'']
          (emptyState\<lparr>cache := [(''m:bb'', [9, 9, 9, 9], 0)]\<rparr>))
     = Inr [Some [1, 0, 0, 0], Some [9, 9, 9, 9], Some [3, 0, 0, 0]]
   \<and> fst (embedWith (\<lambda>xs. map (\<lambda>x. [x]) (rev xs)) demoEnv ''m'' [''a'', ''bb'', ''ccc'']
          (emptyState\<lparr>cache := [(''m:bb'', [9, 9, 9, 9], 0)]\<rparr>))
     = Inr [Some [1, 0, 0, 0], Some [9, 9, 9, 9], Some [3, 0, 0, 0]]"
proof -
  let ?emb = "\<lambda>t :: string. [real (length t), 0, 0, 0]"
  let ?split = "\<lambda>xs :: (string \<times> nat) list. map (\<lambda>x. [x]) (rev xs)"
  let ?s = "emptyState\<lparr>cache := [(''m:bb'', [9, 9, 9, 9], 0)]\<rparr>"
  have prov: "\<forall>ts. provider demoEnv ''m'' ts = Inr (map ?emb ts)"
    by (simp add: demoEnv_def)
  have split: "\<forall>xs. set (concat (?split xs)) = set xs"
    by (simp add: concat_map_singleton)
  have c: "cached ?s ''m'' ''a'' = None" "cached ?s ''m'' ''bb'' = Some [9, 9, 9, 9]"
    "cached ?s ''m'' ''ccc'' = None"
    by (simp_all add: cached_def cacheGet_def cacheKey_def emptyState_def stale_def)
  note t = embed_order_preserving [OF prov, of "[''a'', ''bb'', ''ccc'']" ?s ?split]
  from t [THEN conjunct1] c
  have 1: "fst (embed demoEnv ''m'' [''a'', ''bb'', ''ccc''] ?s)
      = Inr [Some [1, 0, 0, 0], Some [9, 9, 9, 9], Some [3, 0, 0, 0]]"
    by simp
  from t [THEN conjunct2] split
  have "fst (embedWith ?split demoEnv ''m'' [''a'', ''bb'', ''ccc''] ?s)
      = fst (embed demoEnv ''m'' [''a'', ''bb'', ''ccc''] ?s)"
    by blast
  with 1 show ?thesis
    by simp
qed

text \<open>
  Claim C5: the cache makes \<^verbatim>\<open>embed\<close> idempotent. When the text is not cached for
  the model, the provider answers the call for it, and the second call comes within
  the time to live of the entry (\<open>d\<close> milliseconds after the first has returned), then
  both calls return the same vector and the two calls together add exactly one
  provider call.
\<close>

theorem embed_cache_idempotent:
  assumes miss: "cached s model txt = None"
    and prov: "provider e model [txt] = Inr (v # rest)"
    and ttl: "d \<le> cacheTtl"
  shows "fst (embed e model [txt] s) = Inr [Some v]
       \<and> fst (embed e model [txt]
              ((snd (embed e model [txt] s))\<lparr>clock := clock (snd (embed e model [txt] s)) + d\<rparr>))
           = Inr [Some v]
       \<and> calls (snd (embed e model [txt]
              ((snd (embed e model [txt] s))\<lparr>clock := clock (snd (embed e model [txt] s)) + d\<rparr>)))
           = calls s @ [(model, [txt])]"
proof -
  let ?k = "cacheKey model txt"
  let ?now = "clock s + latency e"
  obtain c1 where g: "cacheGet (clock s) ?k (cache s) = (None, c1)"
    using miss by (cases "cacheGet (clock s) ?k (cache s)") (simp add: cached_def)
  let ?c2 = "cacheSet ?now ?k v c1"
  let ?s1 = "s\<lparr>cache := ?c2, calls := calls s @ [(model, [txt])], clock := ?now\<rparr>"
  have batches: "createBatches [(txt, 0 :: nat)] 100 = [[(txt, 0)]]"
    by (simp add: createBatches.simps)
  have first: "embed e model [txt] s = (Inr [Some v], ?s1)"
    using g prov
    by (simp add: embed_def embedWith_def batches runBatch_def arraySet_def Let_def)
  have "find (\<lambda>en. fst en = ?k) ?c2 = Some (?k, v, ?now)"
    by (simp add: cacheSet_def cacheMax_def)
  moreover have "\<not> stale (?now + d) (?k, v, ?now)"
    using ttl by (simp add: stale_def)
  ultimately have hit: "cacheGet (?now + d) ?k ?c2 = (Some v, (?k, v, ?now) # without ?k ?c2)"
    by (simp add: cacheGet_def)
  have second: "embed e model [txt] (?s1\<lparr>clock := ?now + d\<rparr>)
      = (Inr [Some v], ?s1\<lparr>clock := ?now + d, cache := (?k, v, ?now) # without ?k ?c2\<rparr>)"
    using hit by (simp add: embed_def embedWith_def arraySet_def)
  show ?thesis
    using first second by simp
qed

text \<open>
  An instance: \<^verbatim>\<open>embed(["hello"], "model-a")\<close> twice on a fresh service, one second apart.
\<close>

theorem embed_cache_idempotent_witness:
  "fst (embed demoEnv ''model-a'' [''hello''] emptyState) = Inr [Some [5, 0, 0, 0]]
   \<and> fst (embed demoEnv ''model-a'' [''hello'']
        ((snd (embed demoEnv ''model-a'' [''hello''] emptyState))
           \<lparr>clock := clock (snd (embed demoEnv ''model-a'' [''hello''] emptyState)) + 1000\<rparr>))
       = Inr [Some [5, 0, 0, 0]]
   \<and> calls (snd (embed demoEnv ''model-a'' [''hello'']
        ((snd (embed demoEnv ''model-a'' [''hello''] emptyState))
           \<lparr>clock := clock (snd (embed demoEnv ''model-a'' [''hello''] emptyState)) + 1000\<rparr>)))
       = [(''model-a'', [''hello''])]"
proof -
  have miss: "cached emptyState ''model-a'' ''hello'' = None"
    by (simp add: cached_def cacheGet_def emptyState_def)
  have prov: "provider demoEnv ''model-a'' [''hello''] = Inr ([5, 0, 0, 0] # [])"
    by (simp add: demoEnv_def)
  have ttl: "(1000 :: nat) \<le> cacheTtl"
    by (simp add: cacheTtl_def)
  from embed_cache_idempotent [OF miss prov ttl] show ?thesis
    by (simp add: emptyState_def)
qed

section \<open>The compiled predicate against the reference evaluator\<close>

text \<open>
  Claim C2, at the filter \<^verbatim>\<open>{price: {$lte: 500}}\<close> and a document with the numeric
  price 1999: the compiled predicate is \<^verbatim>\<open>JSON_VALUE(metadata, '$.price') <= '500'\<close>,
  the same text as for the string \<^verbatim>\<open>"500"\<close>, so the type of the literal is lost. The
  store compares the texts \<^verbatim>\<open>1999\<close> and \<^verbatim>\<open>500\<close> and selects the document, which
  the reference evaluator with the numeric comparison does not select; a search with
  this filter returns the document.
\<close>

theorem numeric_filter_compared_as_text:
  "buildFilterConditions [(''price'', JObj [(''$lte'', JNum 500)])]
     = Inr (''JSON_VALUE(metadata, '$.price') <= '500'' @ [CHR 0x27])
   \<and> buildFilterConditions [(''price'', JObj [(''$lte'', JStr ''500'')])]
     = buildFilterConditions [(''price'', JObj [(''$lte'', JNum 500)])]
   \<and> compiledSelects [(''price'', JObj [(''$lte'', JNum 500)])] [(''price'', JNum 1999)]
   \<and> \<not> referenceSelects [(''price'', JObj [(''$lte'', JNum 500)])] [(''price'', JNum 1999)]
   \<and> fst (search demoEnv plainCollection
        \<lparr>q_vector = Some [1, 0, 0, 0], q_query = None, q_topK = Some 5,
         q_filter = Some [(''price'', JObj [(''$lte'', JNum 500)])],
         q_includeValues = False, q_includeMetadata = False, q_namespace = None\<rparr>
        (emptyState\<lparr>table :=
           [\<lparr>row_id = ''product-2'', row_embedding = [1, 0, 0, 0], row_text = None,
              row_metadata = [(''price'', JNum 1999)], row_namespace = ''default''\<rparr>]\<rparr>))
     = Inr \<lparr>r_matches = [\<lparr>m_id = ''product-2'', m_score = 1, m_text = None,
                           m_metadata = None, m_vector = None\<rparr>],
            r_namespace = ''default''\<rparr>"
  by (simp add: buildFilterConditions_def filterFragments_def jsonValue_def quoted_def
      show_int_def show_nat.simps compiledSelects_def referenceSelects_def json_value_def
      str_compare_def search_def resolveQueryVector_def runSearch_def searchStatement_def
      execute_def readable_def metricText_def
        toUpperCase_def letters_def plainLiteral_def topKOf_def toMatch_def
      selectRows_def demoEnv_def cosineDistance_def dot_def emptyState_def
      plainCollection_def Let_def)


section \<open>\<^verbatim>\<open>upsert\<close> when the provider fails\<close>

lemma upsert_error_writes_nothing:
  "fst (upsert e col request s) = Inl err \<Longrightarrow> table (snd (upsert e col request s)) = table s"
  using upsertEmbeddings_table [of e col "u_documents request" s]
  by (auto simp: upsert_def Let_def split: if_splits prod.splits sum.splits)

text \<open>
  Claim C9, at a batch of one document with an explicit vector of length 3 for dimension 4,
  in a collection with an embedding service: when the provider fails, \<^verbatim>\<open>upsert\<close> raises
  an \<open>EmbeddingError\<close> and not the \<open>ValidationError\<close> for the document, because it has
  sent the text \<^verbatim>\<open>{}\<close> of the document to the provider before the check. With a
  provider that answers, the same request raises the \<open>ValidationError\<close> that names
  \<^verbatim>\<open>bad-dimension\<close>. Nothing is written in either case.
\<close>

theorem wrong_dimension_behind_embedding_failure:
  "upsert failingEnv embeddingCollection
     \<lparr>u_documents = [\<lparr>doc_id = ''bad-dimension'', doc_text = None, doc_metadata = None,
                       doc_vector = Some [0.1, 0.2, 0.3]\<rparr>],
      u_namespace = None\<rparr>
     emptyState
   = (Inl (EmbeddingError ''Failed to generate embeddings: Error: Connection error.''),
      \<lparr>table = [], cache = [], calls = [(''text-embedding-ada-002'', [''{}''])], clock = 250\<rparr>)
   \<and> upsert demoEnv embeddingCollection
     \<lparr>u_documents = [\<lparr>doc_id = ''bad-dimension'', doc_text = None, doc_metadata = None,
                       doc_vector = Some [0.1, 0.2, 0.3]\<rparr>],
      u_namespace = None\<rparr>
     emptyState
   = (Inl (ValidationError ''Vector dimension mismatch for document bad-dimension. Expected 4, got 3''),
      \<lparr>table = [], cache = [(''text-embedding-ada-002:{}'', [2, 0, 0, 0], 250)],
       calls = [(''text-embedding-ada-002'', [''{}''])], clock = 250\<rparr>)"
  by (simp add: upsert_def upsertEmbeddings_def embeddingService_def embeddingCollection_def
      emptyState_def failingEnv_def demoEnv_def modelOf_def textToEmbed_def embed_def
      embedWith_def cacheGet_def cacheKey_def createBatches.simps runBatch_def cacheSet_def
      cacheMax_def without_def arraySet_def resolveVector_def mismatch_def show_int_def
      show_nat.simps)

section \<open>Properties of \<^verbatim>\<open>search\<close>\<close>




















end
